theory Spec2Isabelle
  imports Main "HOL-Library.Word" "HOL-Library.Sublist"
begin

section \<open>Data model\<close>

text \<open>
  The development follows two Go files: the staged cache store \<open>BatchDatabase\<close> of
  package \<open>tomox\<close> and the block validator of package \<open>core\<close>. Byte slices are lists
  of 8-bit words (a \<open>nil\<close> slice and a slice of length zero are both the empty list:
  no code path of the two files tells them apart), \<open>common.Hash\<close> is a 256-bit word
  whose zero is \<open>common.Hash{}\<close>, and \<open>uint64\<close> is a 64-bit word, so that \<open>+\<close> and
  \<open>-\<close> wrap around as they do in Go.
\<close>

type_synonym byte = "8 word"
type_synonym bytes = "byte list"
type_synonym hash = "256 word"
type_synonym uint64 = "64 word"

text \<open>
  A value held in a cache is a Go \<open>interface{}\<close>. The code distinguishes \<open>nil\<close>, a
  pointer (\<open>reflect.Ptr\<close>) to a record of one of the five types of the type switch of
  \<open>InitDryRunMode\<close>, a pointer to anything else (\<open>OtherType\<close>), and a value that is
  not a pointer. The payload \<open>'r\<close> is the content of the record. A pointer is modelled
  by the record it points to: neither file writes through a pointer it has stored.
\<close>

datatype kind = Item | OrderItem | OrderListItem | OrderTreeItem | OrderBookItem | OtherType

datatype 'r val = NilVal | Ptr kind 'r | NonPtr 'r

datatype err =
    ErrNotFound
  | IoError
  | EncodeError
  | DecodeError
  | DryrunCacheNotFound hash
  | CantInitialize hash
  | CantInherit hash hash
  | ParentCacheNotFound hash hash
  | HexError
  | CantGetItem

subsection \<open>The LRU cache of \<open>hashicorp/golang-lru\<close>\<close>

text \<open>
  The library is not part of the repository. Its cache is a bounded list of entries,
  most recently used first: \<open>Add\<close> and \<open>Get\<close> move the entry to the front,
  \<open>Contains\<close> does not, \<open>Add\<close> of a new key beyond the size evicts the oldest entry,
  and \<open>Keys\<close> lists the keys from the oldest to the newest. \<open>New\<close> refuses a size
  that is not positive.
\<close>

record ('k, 'v) lru =
  lru_size :: nat
  lru_items :: "('k \<times> 'v) list"

definition lru_New :: "int \<Rightarrow> ('k, 'v) lru option" where
  "lru_New n = (if n \<le> 0 then None else Some \<lparr>lru_size = nat n, lru_items = []\<rparr>)"

definition lru_Len :: "('k, 'v) lru \<Rightarrow> nat" where
  "lru_Len c = length (lru_items c)"

definition lru_Peek :: "('k, 'v) lru \<Rightarrow> 'k \<Rightarrow> 'v option" where
  "lru_Peek c k = map_of (lru_items c) k"

definition lru_Contains :: "('k, 'v) lru \<Rightarrow> 'k \<Rightarrow> bool" where
  "lru_Contains c k \<longleftrightarrow> lru_Peek c k \<noteq> None"

definition move_front :: "'k \<Rightarrow> 'v \<Rightarrow> ('k \<times> 'v) list \<Rightarrow> ('k \<times> 'v) list" where
  "move_front k v xs = (k, v) # filter (\<lambda>e. fst e \<noteq> k) xs"

definition lru_Get :: "('k, 'v) lru \<Rightarrow> 'k \<Rightarrow> 'v option \<times> ('k, 'v) lru" where
  "lru_Get c k =
     (case lru_Peek c k of
        None \<Rightarrow> (None, c)
      | Some v \<Rightarrow> (Some v, c\<lparr>lru_items := move_front k v (lru_items c)\<rparr>))"

definition lru_Add :: "('k, 'v) lru \<Rightarrow> 'k \<Rightarrow> 'v \<Rightarrow> ('k, 'v) lru" where
  "lru_Add c k v =
     (case lru_Peek c k of
        Some old \<Rightarrow> c\<lparr>lru_items := move_front k v (lru_items c)\<rparr>
      | None \<Rightarrow>
          (let xs = (k, v) # lru_items c
           in c\<lparr>lru_items := (if length xs > lru_size c then butlast xs else xs)\<rparr>))"

definition lru_Remove :: "('k, 'v) lru \<Rightarrow> 'k \<Rightarrow> ('k, 'v) lru" where
  "lru_Remove c k = c\<lparr>lru_items := filter (\<lambda>e. fst e \<noteq> k) (lru_items c)\<rparr>"

definition lru_Purge :: "('k, 'v) lru \<Rightarrow> ('k, 'v) lru" where
  "lru_Purge c = c\<lparr>lru_items := []\<rparr>"

definition lru_Keys :: "('k, 'v) lru \<Rightarrow> 'k list" where
  "lru_Keys c = rev (map fst (lru_items c))"

subsection \<open>Hexadecimal cache keys (\<open>encoding/hex\<close>)\<close>

definition hextable :: string where
  "hextable = ''0123456789abcdef''"

fun EncodeToString :: "bytes \<Rightarrow> string" where
  "EncodeToString [] = []"
| "EncodeToString (v # src) =
     hextable ! (unat v div 16) # hextable ! (unat v mod 16) # EncodeToString src"

definition fromHexChar :: "char \<Rightarrow> nat option" where
  "fromHexChar c =
     (let n = (of_char c :: nat)
      in if 48 \<le> n \<and> n \<le> 57 then Some (n - 48)
         else if 97 \<le> n \<and> n \<le> 102 then Some (n - 97 + 10)
         else if 65 \<le> n \<and> n \<le> 70 then Some (n - 65 + 10)
         else None)"

fun DecodeString :: "string \<Rightarrow> bytes option" where
  "DecodeString [] = Some []"
| "DecodeString [c] = None"
| "DecodeString (a # b # s) =
     (case fromHexChar a of
        None \<Rightarrow> None
      | Some x \<Rightarrow>
          (case fromHexChar b of
             None \<Rightarrow> None
           | Some y \<Rightarrow>
               (case DecodeString s of
                  None \<Rightarrow> None
                | Some rest \<Rightarrow> Some (word_of_nat (16 * x + y) # rest))))"

subsection \<open>The persistent store (\<open>ethdb.LDBDatabase\<close>)\<close>

text \<open>
  Modelled from the spec: the store of package \<open>ethdb\<close> is not among the sources. Section
  4.1 of the specification gives its operations (\<open>has\<close>, \<open>get\<close>, \<open>put\<close>, \<open>delete\<close>, a
  batch with \<open>put\<close> and an all-or-nothing \<open>write\<close>) and its failure kinds \<open>NotFound\<close>
  and \<open>IoError\<close>. The store is a map from keys to values; while \<open>failing\<close> holds every
  operation on the store reports \<open>IoError\<close> and changes nothing. A batch is the list of
  its puts, in the order they were made, and lives in memory until it is written.
\<close>

record ldb =
  kv :: "bytes \<rightharpoonup> bytes"
  failing :: bool

type_synonym batch = "(bytes \<times> bytes) list"

definition ldb_Has :: "ldb \<Rightarrow> bytes \<Rightarrow> bool \<times> err option" where
  "ldb_Has d key = (if failing d then (False, Some IoError) else (kv d key \<noteq> None, None))"

definition ldb_Get :: "ldb \<Rightarrow> bytes \<Rightarrow> err + bytes" where
  "ldb_Get d key =
     (if failing d then Inl IoError
      else case kv d key of None \<Rightarrow> Inl ErrNotFound | Some b \<Rightarrow> Inr b)"

definition ldb_Put :: "ldb \<Rightarrow> bytes \<Rightarrow> bytes \<Rightarrow> err option \<times> ldb" where
  "ldb_Put d key value =
     (if failing d then (Some IoError, d) else (None, d\<lparr>kv := (kv d)(key \<mapsto> value)\<rparr>))"

definition ldb_Delete :: "ldb \<Rightarrow> bytes \<Rightarrow> err option \<times> ldb" where
  "ldb_Delete d key =
     (if failing d then (Some IoError, d) else (None, d\<lparr>kv := (kv d)(key := None)\<rparr>))"

definition batch_Put :: "batch \<Rightarrow> bytes \<Rightarrow> bytes \<Rightarrow> batch" where
  "batch_Put b key value = b @ [(key, value)]"

fun apply_batch :: "batch \<Rightarrow> (bytes \<rightharpoonup> bytes) \<Rightarrow> (bytes \<rightharpoonup> bytes)" where
  "apply_batch [] m = m"
| "apply_batch ((key, value) # b) m = apply_batch b (m(key \<mapsto> value))"

definition batch_Write :: "ldb \<Rightarrow> batch \<Rightarrow> err option \<times> ldb" where
  "batch_Write d b =
     (if failing d then (Some IoError, d) else (None, d\<lparr>kv := apply_batch b (kv d)\<rparr>))"

section \<open>The staged cache store\<close>

text \<open>
  The fields of \<open>BatchDatabase\<close>, without the lock and the debug flag. The registry
  \<open>dryRunCaches\<close> maps a block hash to its overlay; \<open>InitDryRunMode\<close> is the only
  writer of the registry and stores caches that \<open>lru.New\<close> returned, so a registered
  overlay is never a nil pointer.
\<close>

record 'r BatchDatabase =
  db :: ldb
  emptyKey :: bytes
  cacheItems :: "(string, 'r val) lru"
  dryRunCaches :: "hash \<rightharpoonup> (string, 'r val) lru"
  recentCaches :: "hash list"
  cacheLimit :: int

definition defaultCacheLimit :: int where
  "defaultCacheLimit = 1024000"

definition dryrunCacheLimit :: nat where
  "dryrunCacheLimit = 200"

text \<open>
  \<open>NewBatchDatabaseWithEncode\<close> once the store has been opened; \<open>ek\<close> is the result
  of \<open>EmptyKey()\<close>, a function of package \<open>tomox\<close> that is not among the sources.
\<close>

definition NewBatchDatabase :: "ldb \<Rightarrow> bytes \<Rightarrow> int \<Rightarrow> 'r BatchDatabase" where
  "NewBatchDatabase store ek limit =
     (let itemCacheLimit = (if limit > 0 then limit else defaultCacheLimit)
      in \<lparr>db = store,
          emptyKey = ek,
          cacheItems = \<lparr>lru_size = nat itemCacheLimit, lru_items = []\<rparr>,
          dryRunCaches = Map.empty,
          recentCaches = [],
          cacheLimit = itemCacheLimit\<rparr>)"

definition IsEmptyKey :: "'r BatchDatabase \<Rightarrow> bytes \<Rightarrow> bool" where
  "IsEmptyKey s key \<longleftrightarrow> length key = 0 \<or> key = emptyKey s"

definition getCacheKey :: "bytes \<Rightarrow> string" where
  "getCacheKey key = EncodeToString key"

definition set_overlay ::
  "'r BatchDatabase \<Rightarrow> hash \<Rightarrow> (string, 'r val) lru \<Rightarrow> 'r BatchDatabase" where
  "set_overlay s h c = s\<lparr>dryRunCaches := (dryRunCaches s)(h \<mapsto> c)\<rparr>"

text \<open>
  The staged lookup shared by \<open>Has\<close> and \<open>Get\<close>: the overlay of the block hash is
  read only when it is registered and not empty, and a hit moves the entry to the front
  of the overlay.
\<close>

definition dryrun_lookup ::
  "'r BatchDatabase \<Rightarrow> string \<Rightarrow> hash \<Rightarrow> 'r val option \<times> 'r BatchDatabase" where
  "dryrun_lookup s cacheKey blockHash =
     (case dryRunCaches s blockHash of
        None \<Rightarrow> (None, s)
      | Some dryrunCache \<Rightarrow>
          if lru_Len dryrunCache > 0 then
            (case lru_Get dryrunCache cacheKey of
               (None, c) \<Rightarrow> (None, s)
             | (Some v, c) \<Rightarrow> (Some v, set_overlay s blockHash c))
          else (None, s))"

definition Has ::
  "'r BatchDatabase \<Rightarrow> bytes \<Rightarrow> bool \<Rightarrow> hash \<Rightarrow> (bool \<times> err option) \<times> 'r BatchDatabase" where
  "Has s key dryrun blockHash =
     (if IsEmptyKey s key then ((False, None), s)
      else
        (let cacheKey = getCacheKey key
         in if dryrun then
              (case dryrun_lookup s cacheKey blockHash of
                 (Some v, s1) \<Rightarrow> (if v = NilVal then ((False, None), s1) else ((True, None), s1))
               | (None, s1) \<Rightarrow> (ldb_Has (db s1) key, s1))
            else if lru_Contains (cacheItems s) cacheKey then ((True, None), s)
            else (ldb_Has (db s) key, s)))"

text \<open>
  \<open>Get\<close>. The argument \<open>val\<close> of the Go function is the pointer the caller wants the
  stored bytes decoded into; the model passes the type it points to. \<open>DecodeBytesItem\<close>
  is not among the sources and is the parameter \<open>dec\<close>. The read of \<open>cacheItems\<close> is
  made in both modes (it moves a cached entry to the front); its result is used in
  direct mode only.
\<close>

definition Get ::
  "(bytes \<Rightarrow> kind \<Rightarrow> 'r option) \<Rightarrow> 'r BatchDatabase \<Rightarrow> bytes \<Rightarrow> kind \<Rightarrow> bool \<Rightarrow> hash
   \<Rightarrow> ('r val \<times> err option) \<times> 'r BatchDatabase" where
  "Get dec s key val dryrun blockHash =
     (if IsEmptyKey s key then ((NilVal, None), s)
      else
        (let cacheKey = getCacheKey key
         in case (if dryrun then dryrun_lookup s cacheKey blockHash else (None, s)) of
              (Some v, s1) \<Rightarrow> ((v, None), s1)
            | (None, s1) \<Rightarrow>
                (case lru_Get (cacheItems s1) cacheKey of
                   (cached, ci) \<Rightarrow>
                     (let s2 = s1\<lparr>cacheItems := ci\<rparr>
                      in case (if dryrun then None else cached) of
                           Some v \<Rightarrow> ((v, None), s2)
                         | None \<Rightarrow>
                             (case ldb_Get (db s2) key of
                                Inl e \<Rightarrow> ((NilVal, Some e), s2)
                              | Inr b \<Rightarrow>
                                  (case dec b val of
                                     None \<Rightarrow> ((NilVal, Some DecodeError), s2)
                                   | Some r \<Rightarrow>
                                       ((Ptr val r, None),
                                        if dryrun then s2
                                        else s2\<lparr>cacheItems :=
                                               lru_Add (cacheItems s2) cacheKey (Ptr val r)\<rparr>)))))))"

text \<open>\<open>Put\<close> and \<open>Delete\<close>; \<open>EncodeBytesItem\<close> is the parameter \<open>enc\<close>.\<close>

definition Put ::
  "('r val \<Rightarrow> bytes option) \<Rightarrow> 'r BatchDatabase \<Rightarrow> bytes \<Rightarrow> 'r val \<Rightarrow> bool \<Rightarrow> hash
   \<Rightarrow> err option \<times> 'r BatchDatabase" where
  "Put enc s key val dryrun blockHash =
     (let cacheKey = getCacheKey key
      in if dryrun then
           (case dryRunCaches s blockHash of
              None \<Rightarrow> (Some (DryrunCacheNotFound blockHash), s)
            | Some dryrunCache \<Rightarrow>
                (None, set_overlay s blockHash (lru_Add dryrunCache cacheKey val)))
         else
           (let s1 = s\<lparr>cacheItems := lru_Add (cacheItems s) cacheKey val\<rparr>
            in case enc val of
                 None \<Rightarrow> (Some EncodeError, s1)
               | Some value \<Rightarrow>
                   (case ldb_Put (db s1) key value of (e, d) \<Rightarrow> (e, s1\<lparr>db := d\<rparr>))))"

definition Delete ::
  "'r BatchDatabase \<Rightarrow> bytes \<Rightarrow> bool \<Rightarrow> hash \<Rightarrow> err option \<times> 'r BatchDatabase" where
  "Delete s key dryrun blockHash =
     (let cacheKey = getCacheKey key
      in if dryrun then
           (case dryRunCaches s blockHash of
              None \<Rightarrow> (Some (DryrunCacheNotFound blockHash), s)
            | Some dryrunCache \<Rightarrow>
                (None, set_overlay s blockHash (lru_Add dryrunCache cacheKey NilVal)))
         else
           (let s1 = s\<lparr>cacheItems := lru_Remove (cacheItems s) cacheKey\<rparr>
            in case ldb_Delete (db s1) key of (e, d) \<Rightarrow> (e, s1\<lparr>db := d\<rparr>)))"

text \<open>
  \<open>DropDryrunCache\<close> purges the overlay and deletes it from the registry; the purged
  cache is referenced from nowhere else, so only the deletion shows.
\<close>

definition DropDryrunCache :: "'r BatchDatabase \<Rightarrow> hash \<Rightarrow> 'r BatchDatabase" where
  "DropDryrunCache s blockhash = s\<lparr>dryRunCaches := (dryRunCaches s)(blockhash := None)\<rparr>"

definition HasDryrunCache :: "'r BatchDatabase \<Rightarrow> hash \<Rightarrow> bool" where
  "HasDryrunCache s blockhash =
     (case dryRunCaches s blockhash of
        None \<Rightarrow> False
      | Some cache \<Rightarrow> lru_Len cache > 0)"

text \<open>
  The copy loop of \<open>InitDryRunMode\<close> over the keys of the parent overlay. A pointer to
  one of the five record types is cloned by encoding and decoding it (the error of the
  encoder is dropped by the code, which then decodes the bytes it got: none), a pointer
  to another type matches no case of the type switch and is not copied, and \<open>nil\<close> and
  values that are not pointers are copied as they are. The loop returns the parent too:
  each \<open>Get\<close> moves the entry it reads to the front.
\<close>

definition encoded_or_nil :: "('r val \<Rightarrow> bytes option) \<Rightarrow> 'r val \<Rightarrow> bytes" where
  "encoded_or_nil enc v = (case enc v of None \<Rightarrow> [] | Some b \<Rightarrow> b)"

fun inherit_loop ::
  "('r val \<Rightarrow> bytes option) \<Rightarrow> (bytes \<Rightarrow> kind \<Rightarrow> 'r option) \<Rightarrow> string list
   \<Rightarrow> (string, 'r val) lru \<Rightarrow> (string, 'r val) lru
   \<Rightarrow> bool \<times> (string, 'r val) lru \<times> (string, 'r val) lru" where
  "inherit_loop enc dec [] parentCache dryrunCache = (True, parentCache, dryrunCache)"
| "inherit_loop enc dec (cacheKey # keys) parentCache dryrunCache =
     (case lru_Get parentCache cacheKey of
        (None, pc) \<Rightarrow> inherit_loop enc dec keys pc dryrunCache
      | (Some v, pc) \<Rightarrow>
          (case v of
             Ptr k r \<Rightarrow>
               (if k = OtherType then inherit_loop enc dec keys pc dryrunCache
                else
                  (case dec (encoded_or_nil enc v) k of
                     None \<Rightarrow> (False, pc, dryrunCache)
                   | Some r' \<Rightarrow>
                       inherit_loop enc dec keys pc (lru_Add dryrunCache cacheKey (Ptr k r'))))
           | NilVal \<Rightarrow> inherit_loop enc dec keys pc (lru_Add dryrunCache cacheKey v)
           | NonPtr r \<Rightarrow> inherit_loop enc dec keys pc (lru_Add dryrunCache cacheKey v)))"

text \<open>
  \<open>InitDryRunMode\<close>; \<open>miner\<close> is \<open>M1DryrunCacheHash\<close>, a variable of package
  \<open>tomox\<close> that is not among the sources.
\<close>

definition evict_oldest :: "'r BatchDatabase \<Rightarrow> 'r BatchDatabase" where
  "evict_oldest s =
     (case recentCaches s of
        [] \<Rightarrow> s
      | h # rest \<Rightarrow>
          if length (recentCaches s) \<ge> dryrunCacheLimit
          then (DropDryrunCache s h)\<lparr>recentCaches := rest\<rparr>
          else s)"

definition register_overlay ::
  "hash \<Rightarrow> 'r BatchDatabase \<Rightarrow> hash \<Rightarrow> (string, 'r val) lru \<Rightarrow> 'r BatchDatabase" where
  "register_overlay miner s h c =
     (let s1 = set_overlay s h c
      in if h \<noteq> miner then s1\<lparr>recentCaches := recentCaches s1 @ [h]\<rparr> else s1)"

definition InitDryRunMode ::
  "hash \<Rightarrow> ('r val \<Rightarrow> bytes option) \<Rightarrow> (bytes \<Rightarrow> kind \<Rightarrow> 'r option) \<Rightarrow> 'r BatchDatabase
   \<Rightarrow> hash \<Rightarrow> hash \<Rightarrow> err option \<times> 'r BatchDatabase" where
  "InitDryRunMode miner enc dec s blockHashNoValidator parentCacheHash =
     (let s1 = evict_oldest s;
          s2 = DropDryrunCache s1 blockHashNoValidator
      in case lru_New (cacheLimit s2) of
           None \<Rightarrow> (Some (CantInitialize blockHashNoValidator), s2)
         | Some dryrunCache \<Rightarrow>
             if parentCacheHash \<noteq> 0 then
               (case dryRunCaches s2 parentCacheHash of
                  None \<Rightarrow> (Some (ParentCacheNotFound blockHashNoValidator parentCacheHash), s2)
                | Some parentCache \<Rightarrow>
                    if lru_Len parentCache > 0 then
                      (case inherit_loop enc dec (lru_Keys parentCache) parentCache dryrunCache of
                         (ok, pc, c) \<Rightarrow>
                           (let s3 = set_overlay s2 parentCacheHash pc
                            in if ok then (None, register_overlay miner s3 blockHashNoValidator c)
                               else (Some (CantInherit blockHashNoValidator parentCacheHash), s3)))
                    else (Some (ParentCacheNotFound blockHashNoValidator parentCacheHash), s2))
             else (None, register_overlay miner s2 blockHashNoValidator dryrunCache))"

text \<open>
  The loop of \<open>SaveDryRunResult\<close> over the keys of the overlay: a \<open>nil\<close> entry is
  deleted from the store at once, any other entry is encoded and put into the batch.
\<close>

fun save_loop ::
  "('r val \<Rightarrow> bytes option) \<Rightarrow> string list \<Rightarrow> (string, 'r val) lru \<Rightarrow> ldb \<Rightarrow> batch
   \<Rightarrow> err option \<times> (string, 'r val) lru \<times> ldb \<times> batch" where
  "save_loop enc [] c d b = (None, c, d, b)"
| "save_loop enc (cacheKey # keys) c d b =
     (case DecodeString cacheKey of
        None \<Rightarrow> (Some HexError, c, d, b)
      | Some key \<Rightarrow>
          (case lru_Get c cacheKey of
             (None, c1) \<Rightarrow> (Some CantGetItem, c1, d, b)
           | (Some v, c1) \<Rightarrow>
               if v = NilVal then
                 (case ldb_Delete d key of
                    (Some e, d1) \<Rightarrow> (Some e, c1, d1, b)
                  | (None, d1) \<Rightarrow> save_loop enc keys c1 d1 b)
               else
                 (case enc v of
                    None \<Rightarrow> (Some EncodeError, c1, d, b)
                  | Some value \<Rightarrow> save_loop enc keys c1 d (batch_Put b key value))))"

definition SaveDryRunResult ::
  "('r val \<Rightarrow> bytes option) \<Rightarrow> 'r BatchDatabase \<Rightarrow> hash \<Rightarrow> err option \<times> 'r BatchDatabase" where
  "SaveDryRunResult enc s blockHash =
     (case dryRunCaches s blockHash of
        None \<Rightarrow> (None, s)
      | Some dryrunCache \<Rightarrow>
          if lru_Len dryrunCache = 0 then (None, s)
          else
            (case save_loop enc (lru_Keys dryrunCache) dryrunCache (db s) [] of
               (Some e, c, d, b) \<Rightarrow> (Some e, (set_overlay s blockHash c)\<lparr>db := d\<rparr>)
             | (None, c, d, b) \<Rightarrow>
                 (let s1 = (set_overlay s blockHash c)\<lparr>db := d\<rparr>;
                      s2 = s1\<lparr>cacheItems := lru_Purge (cacheItems s1)\<rparr>
                  in case batch_Write (db s2) b of (e, d') \<Rightarrow> (e, s2\<lparr>db := d'\<rparr>))))"

section \<open>The block validator\<close>

record block =
  GasLimit :: uint64
  GasUsed :: uint64

text \<open>
  Modelled from the spec: \<open>params.GasLimitBoundDivisor\<close> is not among the sources; the
  tunables of the specification and the comments of \<open>CalcGasLimit\<close> give 1024.
  \<open>params.MinGasLimit\<close> and \<open>params.TargetGasLimit\<close> are parameters.
\<close>

definition GasLimitBoundDivisor :: uint64 where
  "GasLimitBoundDivisor = 1024"

definition contrib :: "block \<Rightarrow> uint64" where
  "contrib parent = (GasUsed parent + GasUsed parent div 2) div GasLimitBoundDivisor"

definition decay :: "block \<Rightarrow> uint64" where
  "decay parent = GasLimit parent div GasLimitBoundDivisor - 1"

definition CalcGasLimit :: "uint64 \<Rightarrow> uint64 \<Rightarrow> block \<Rightarrow> uint64" where
  "CalcGasLimit MinGasLimit TargetGasLimit parent =
     (let limit = GasLimit parent - decay parent + contrib parent;
          limit = (if limit < MinGasLimit then MinGasLimit else limit)
      in if limit < TargetGasLimit
         then (let limit = GasLimit parent + decay parent
               in if limit > TargetGasLimit then TargetGasLimit else limit)
         else limit)"

text \<open>
  The recurrence as the specification words it, in exact integer arithmetic, for
  comparison with \<open>CalcGasLimit\<close>.
\<close>

definition calc_gas_limit_spec :: "int \<Rightarrow> int \<Rightarrow> int \<Rightarrow> int \<Rightarrow> int" where
  "calc_gas_limit_spec minGL targetGL gas_limit gas_used =
     (let D = gas_limit div 1024 - 1;
          C = (gas_used * 3 div 2) div 1024;
          L = gas_limit - D + C;
          L = max L minGL
      in if L < targetGL then min (gas_limit + D) targetGL else L)"

definition fits64 :: "int \<Rightarrow> bool" where
  "fits64 x \<longleftrightarrow> 0 \<le> x \<and> x < 2 ^ 64"

section \<open>Invariants of the store\<close>

text \<open>
  What every cache of a running store satisfies: a positive size, no more entries than
  the size, and no key twice. The overlays are created with the size \<open>cacheLimit\<close>,
  their keys are hexadecimal encodings made by \<open>getCacheKey\<close>, and the list of
  recent overlays is never longer than \<open>dryrunCacheLimit\<close>.
\<close>

definition wf_lru :: "('k, 'v) lru \<Rightarrow> bool" where
  "wf_lru c \<longleftrightarrow> 0 < lru_size c \<and> length (lru_items c) \<le> lru_size c \<and> distinct (map fst (lru_items c))"

definition canonical_key :: "string \<Rightarrow> bool" where
  "canonical_key k = (case DecodeString k of None \<Rightarrow> False | Some key \<Rightarrow> EncodeToString key = k)"

definition wf_db :: "'r BatchDatabase \<Rightarrow> bool" where
  "wf_db s \<longleftrightarrow>
     0 < cacheLimit s \<and> wf_lru (cacheItems s) \<and> length (recentCaches s) \<le> dryrunCacheLimit \<and>
     (\<forall>h c. dryRunCaches s h = Some c \<longrightarrow>
        wf_lru c \<and> lru_size c = nat (cacheLimit s) \<and> (\<forall>k \<in> set (lru_Keys c). canonical_key k))"

text \<open>
  A codec and a store for the examples: a record is a byte string and is its own
  encoding, \<open>nil\<close> has no encoding, and the empty byte string does not decode.
\<close>

definition raw_enc :: "bytes val \<Rightarrow> bytes option" where
  "raw_enc v = (case v of NilVal \<Rightarrow> None | Ptr k r \<Rightarrow> Some r | NonPtr r \<Rightarrow> Some r)"

definition raw_dec :: "bytes \<Rightarrow> kind \<Rightarrow> bytes option" where
  "raw_dec b k = (if b = [] then None else Some b)"

definition db0 :: "bytes BatchDatabase" where
  "db0 = NewBatchDatabase \<lparr>kv = Map.empty, failing = False\<rparr> [0, 0, 0, 0] 8"

text \<open>
  States for the examples, built by the operations themselves (the miner overlay hash
  is 9): overlay 1 holds a record under the key \<open>[1]\<close>; then overlay 2 holds, under
  the same key, a record that the codec of the examples cannot decode again. In the
  third state a direct \<open>Put\<close> has written the key \<open>[1]\<close> to the persistent store.
\<close>

definition st1 :: "bytes BatchDatabase" where
  "st1 = snd (Put raw_enc (snd (InitDryRunMode 9 raw_enc raw_dec db0 1 0)) [1] (Ptr Item [5])
            True 1)"

definition st2 :: "bytes BatchDatabase" where
  "st2 = snd (Put raw_enc (snd (InitDryRunMode 9 raw_enc raw_dec st1 2 0)) [1] (Ptr Item [])
            True 2)"

definition st3 :: "bytes BatchDatabase" where
  "st3 = snd (Put raw_enc st1 [1] (Ptr Item [7]) False 0)"

text \<open>
  A state in which a direct \<open>Put\<close> has written a record to the persistent store under
  the key of length zero, and overlay 1 has then been created empty.
\<close>

definition st4 :: "bytes BatchDatabase" where
  "st4 = snd (InitDryRunMode 9 raw_enc raw_dec (snd (Put raw_enc db0 [] (Ptr Item [5]) False 0))
            1 0)"

text \<open>
  A run of successive \<open>InitDryRunMode\<close> calls, each given as the pair of the block hash
  and the parent hash; the run stops with \<open>None\<close> at the first call that returns an
  error.
\<close>

fun init_all ::
  "hash \<Rightarrow> ('r val \<Rightarrow> bytes option) \<Rightarrow> (bytes \<Rightarrow> kind \<Rightarrow> 'r option) \<Rightarrow> 'r BatchDatabase
   \<Rightarrow> (hash \<times> hash) list \<Rightarrow> 'r BatchDatabase option" where
  "init_all miner enc dec s [] = Some s"
| "init_all miner enc dec s ((h, p) # calls) =
     (case InitDryRunMode miner enc dec s h p of
        (None, s') \<Rightarrow> init_all miner enc dec s' calls
      | (Some e, s') \<Rightarrow> None)"

text \<open>
  The number of further successful initializations after which a hash is certain to be
  out of the registry: the hash is not registered, or it stands in the list of recent
  overlays at an index \<open>i\<close> and the list needs \<open>dryrunCacheLimit - length\<close> calls to
  fill up and \<open>i + 1\<close> more to push the hash out.
\<close>

definition evicted_within :: "'r BatchDatabase \<Rightarrow> hash \<Rightarrow> nat \<Rightarrow> bool" where
  "evicted_within s x n \<longleftrightarrow>
     dryRunCaches s x = None \<or>
     (\<exists>i < length (recentCaches s).
        recentCaches s ! i = x \<and> dryrunCacheLimit + i + 1 \<le> n + length (recentCaches s))"

section \<open>Properties\<close>

subsection \<open>The LRU cache\<close>

lemma map_of_move_front:
  "map_of (move_front k v xs) k' = (if k' = k then Some v else map_of xs k')"
  by (induction xs) (auto simp: move_front_def)

lemma distinct_move_front:
  "distinct (map fst xs) \<Longrightarrow> distinct (map fst (move_front k v xs))"
  by (auto simp: move_front_def distinct_map_filter)

lemma length_move_front:
  "map_of xs k = Some w \<Longrightarrow> distinct (map fst xs) \<Longrightarrow> length (move_front k v xs) = length xs"
proof (induction xs)
  case Nil then show ?case by simp
next
  case (Cons a xs)
  show ?case
  proof (cases "fst a = k")
    case True
    then have "k \<notin> fst ` set xs" using Cons.prems(2) by auto
    then have "filter (\<lambda>e. fst e \<noteq> k) xs = xs" by (auto simp: filter_id_conv)
    with True show ?thesis by (simp add: move_front_def)
  next
    case False
    then have "map_of xs k = Some w" using Cons.prems(1) by (cases a) auto
    with Cons False show ?thesis by (simp add: move_front_def)
  qed
qed

lemma lru_Peek_Get [simp]: "lru_Peek (snd (lru_Get c k)) k' = lru_Peek c k'"
  by (auto simp: lru_Get_def lru_Peek_def map_of_move_front split: option.splits)

lemma fst_lru_Get [simp]: "fst (lru_Get c k) = lru_Peek c k"
  by (auto simp: lru_Get_def split: option.splits)

lemma lru_size_Get [simp]: "lru_size (snd (lru_Get c k)) = lru_size c"
  by (auto simp: lru_Get_def split: option.splits)

lemma lru_Len_Get [simp]: "wf_lru c \<Longrightarrow> lru_Len (snd (lru_Get c k)) = lru_Len c"
  by (auto simp: lru_Get_def lru_Len_def lru_Peek_def wf_lru_def length_move_front split: option.splits)

lemma wf_lru_Get: "wf_lru c \<Longrightarrow> wf_lru (snd (lru_Get c k))"
  by (auto simp: lru_Get_def wf_lru_def lru_Peek_def length_move_front distinct_move_front
      split: option.splits)

lemma lru_size_Add [simp]: "lru_size (lru_Add c k v) = lru_size c"
  by (auto simp: lru_Add_def Let_def split: option.splits)

lemma lru_Peek_Add_same: "0 < lru_size c \<Longrightarrow> lru_Peek (lru_Add c k v) k = Some v"
  by (cases "lru_items c")
     (auto simp: lru_Add_def lru_Peek_def Let_def map_of_move_front split: option.splits)


lemma distinct_butlast_map: "distinct (map f xs) \<Longrightarrow> distinct (map f (butlast xs))"
  using distinct_butlast [of "map f xs"] by (simp add: map_butlast)

lemma wf_lru_Add: "wf_lru c \<Longrightarrow> wf_lru (lru_Add c k v)"
proof -
  assume w: "wf_lru c"
  show ?thesis
  proof (cases "lru_Peek c k")
    case None
    then have "k \<notin> fst ` set (lru_items c)"
      by (simp add: lru_Peek_def map_of_eq_None_iff)
    then have d: "distinct (map fst ((k, v) # lru_items c))"
      using w by (simp add: wf_lru_def)
    show ?thesis
      using w None d distinct_butlast_map [OF d]
      by (auto simp: lru_Add_def wf_lru_def Let_def simp del: butlast.simps distinct.simps list.map)
  next
    case (Some old)
    then show ?thesis
      using w by (auto simp: lru_Add_def wf_lru_def lru_Peek_def length_move_front distinct_move_front)
  qed
qed

lemma wf_lru_Remove: "wf_lru c \<Longrightarrow> wf_lru (lru_Remove c k)"
  by (auto simp: wf_lru_def lru_Remove_def distinct_map_filter intro: le_trans [OF length_filter_le])

lemma wf_lru_Purge: "wf_lru c \<Longrightarrow> wf_lru (lru_Purge c)"
  by (auto simp: wf_lru_def lru_Purge_def)

subsection \<open>Cache keys and the invariant\<close>

lemma fromHexChar_hextable_all: "\<forall>n \<in> set [0..<16]. fromHexChar (hextable ! n) = Some n"
  by code_simp

lemma fromHexChar_hextable: "n < 16 \<Longrightarrow> fromHexChar (hextable ! n) = Some n"
  using fromHexChar_hextable_all by simp

lemma byte_of_nibbles: "word_of_nat (16 * (unat v div 16) + unat v mod 16) = (v :: byte)"
  by simp

lemma DecodeString_EncodeToString [simp]: "DecodeString (EncodeToString key) = Some key"
proof (induction key)
  case Nil then show ?case by simp
next
  case (Cons v key)
  have h: "unat v div 16 < 16"
    using unsigned_less [of v, where 'a = nat] by simp
  have l: "unat v mod 16 < 16" by simp
  show ?case
    using Cons by (simp add: fromHexChar_hextable [OF h] fromHexChar_hextable [OF l]
        del: of_nat_add of_nat_mult)
qed

lemma EncodeToString_inj: "EncodeToString a = EncodeToString b \<Longrightarrow> a = b"
  by (metis DecodeString_EncodeToString option.inject)

lemma canonical_getCacheKey [simp]: "canonical_key (getCacheKey key)"
  by (simp add: canonical_key_def getCacheKey_def)

lemma keys_Get [simp]: "set (lru_Keys (snd (lru_Get c k))) = set (lru_Keys c)"
proof (cases "lru_Peek c k")
  case None
  then show ?thesis by (simp add: lru_Get_def)
next
  case (Some v)
  then have "(k, v) \<in> set (lru_items c)" by (simp add: lru_Peek_def map_of_SomeD)
  then have "k \<in> fst ` set (lru_items c)" by force
  with Some show ?thesis
    by (auto simp: lru_Get_def lru_Keys_def move_front_def)
qed

lemma set_butlast_subset: "set (butlast xs) \<subseteq> set xs"
  by (induction xs) auto

lemma keys_Add: "set (lru_Keys (lru_Add c k v)) \<subseteq> insert k (set (lru_Keys c))"
proof (cases "lru_Peek c k")
  case None
  have "set (map fst (butlast ((k, v) # lru_items c))) \<subseteq> set (map fst ((k, v) # lru_items c))"
    using set_butlast_subset [of "(k, v) # lru_items c"] by (metis image_mono set_map)
  with None show ?thesis
    by (auto simp: lru_Add_def lru_Keys_def Let_def simp del: butlast.simps)
next
  case (Some a)
  then show ?thesis
    by (auto simp: lru_Add_def lru_Keys_def move_front_def)
qed

lemma wf_db_set_overlay:
  "wf_db s \<Longrightarrow> wf_lru c \<Longrightarrow> lru_size c = nat (cacheLimit s)
   \<Longrightarrow> \<forall>k \<in> set (lru_Keys c). canonical_key k \<Longrightarrow> wf_db (set_overlay s h c)"
  by (auto simp: wf_db_def set_overlay_def)

lemma wf_db_overlay_Get:
  "wf_db s \<Longrightarrow> dryRunCaches s h = Some c \<Longrightarrow> wf_db (set_overlay s h (snd (lru_Get c k)))"
  by (rule wf_db_set_overlay) (auto simp: wf_db_def wf_lru_Get)

lemma wf_db_overlay_Add:
  "wf_db s \<Longrightarrow> dryRunCaches s h = Some c
   \<Longrightarrow> wf_db (set_overlay s h (lru_Add c (getCacheKey key) v))"
proof (rule wf_db_set_overlay)
  assume w: "wf_db s" and c: "dryRunCaches s h = Some c"
  show "wf_db s" by fact
  show "wf_lru (lru_Add c (getCacheKey key) v)" using w c by (auto simp: wf_db_def wf_lru_Add)
  show "lru_size (lru_Add c (getCacheKey key) v) = nat (cacheLimit s)"
    using w c by (auto simp: wf_db_def)
  show "\<forall>k\<in>set (lru_Keys (lru_Add c (getCacheKey key) v)). canonical_key k"
    using w c keys_Add [of c "getCacheKey key" v] by (auto simp: wf_db_def)
qed

lemma wf_db_cacheItems:
  "wf_db s \<Longrightarrow> wf_lru ci \<Longrightarrow> wf_db (s\<lparr>cacheItems := ci\<rparr>)"
  by (auto simp: wf_db_def)

lemma wf_db_db: "wf_db s \<Longrightarrow> wf_db (s\<lparr>db := d\<rparr>)"
  by (auto simp: wf_db_def)

lemma wf_db_New: "wf_db (NewBatchDatabase store ek limit)"
  by (auto simp: wf_db_def NewBatchDatabase_def Let_def wf_lru_def defaultCacheLimit_def
      dryrunCacheLimit_def)

lemma dryrun_lookup_cases:
  assumes l: "dryrun_lookup s k h = (r, s')"
  shows "(s' = s \<and> r = None) \<or>
     (\<exists>c v. dryRunCaches s h = Some c \<and> lru_Peek c k = Some v \<and> r = Some v \<and>
            s' = set_overlay s h (snd (lru_Get c k)))"
proof (cases "dryRunCaches s h")
  case None
  with l show ?thesis by (auto simp: dryrun_lookup_def)
next
  case (Some c)
  note c = this
  show ?thesis
  proof (cases "lru_Peek c k")
    case None
    with c l show ?thesis
      by (auto simp: dryrun_lookup_def lru_Get_def split: if_splits)
  next
    case (Some v)
    with c l show ?thesis
      by (auto simp: dryrun_lookup_def lru_Get_def split: if_splits)
  qed
qed

lemma wf_db_dryrun_lookup: "wf_db s \<Longrightarrow> dryrun_lookup s k h = (r, s') \<Longrightarrow> wf_db s'"
  by (auto dest!: dryrun_lookup_cases simp: wf_db_overlay_Get)

lemma wf_db_Has: "wf_db s \<Longrightarrow> wf_db (snd (Has s key dryrun h))"
  by (auto simp: Has_def Let_def split: prod.splits option.splits dest: wf_db_dryrun_lookup)

lemma wf_db_Get: "wf_db s \<Longrightarrow> wf_db (snd (Get dec s key v dryrun h))"
proof -
  assume w: "wf_db s"
  have ci: "\<And>t k. wf_db t \<Longrightarrow> wf_db (t\<lparr>cacheItems := snd (lru_Get (cacheItems t) k)\<rparr>)"
    by (rule wf_db_cacheItems) (auto simp: wf_db_def wf_lru_Get)
  have ca: "\<And>t k x. wf_db t \<Longrightarrow> wf_db (t\<lparr>cacheItems := lru_Add (cacheItems t) k x\<rparr>)"
    by (rule wf_db_cacheItems) (auto simp: wf_db_def wf_lru_Add)
  have snd_eq: "\<And>c k a b. lru_Get c k = (a, b) \<Longrightarrow> b = snd (lru_Get c k)" by simp
  show ?thesis
  proof (cases dryrun)
    case True
    obtain r s1 where l: "dryrun_lookup s (getCacheKey key) h = (r, s1)" by force
    have w1: "wf_db s1" using wf_db_dryrun_lookup [OF w l] .
    show ?thesis
      using True l w w1 ci [OF w1, of "getCacheKey key"]
      by (auto simp: Get_def Let_def split: prod.splits option.splits sum.splits dest!: snd_eq)
  next
    case False
    show ?thesis
      using False w ci [OF w, of "getCacheKey key"]
        ca [OF ci [OF w, of "getCacheKey key"], of "getCacheKey key"]
      by (auto simp: Get_def Let_def split: prod.splits option.splits sum.splits dest!: snd_eq)
  qed
qed

lemma wf_db_Put: "wf_db s \<Longrightarrow> wf_db (snd (Put enc s key v dryrun h))"
  by (auto simp: Put_def Let_def wf_db_overlay_Add ldb_Put_def
      intro!: wf_db_db wf_db_cacheItems wf_lru_Add split: option.splits prod.splits)
     (auto simp: wf_db_def)

lemma wf_db_Delete: "wf_db s \<Longrightarrow> wf_db (snd (Delete s key dryrun h))"
  by (auto simp: Delete_def Let_def wf_db_overlay_Add ldb_Delete_def
      intro!: wf_db_db wf_db_cacheItems wf_lru_Remove split: option.splits prod.splits)
     (auto simp: wf_db_def)

lemma wf_db_Drop: "wf_db s \<Longrightarrow> wf_db (DropDryrunCache s h)"
  by (auto simp: wf_db_def DropDryrunCache_def)

lemma inherit_loop_Cons:
  "inherit_loop enc dec (k # ks) pc c =
     (case lru_Peek pc k of
        None \<Rightarrow> inherit_loop enc dec ks (snd (lru_Get pc k)) c
      | Some v \<Rightarrow>
          (case v of
             Ptr kd r \<Rightarrow>
               (if kd = OtherType then inherit_loop enc dec ks (snd (lru_Get pc k)) c
                else
                  (case dec (encoded_or_nil enc v) kd of
                     None \<Rightarrow> (False, snd (lru_Get pc k), c)
                   | Some r' \<Rightarrow>
                       inherit_loop enc dec ks (snd (lru_Get pc k)) (lru_Add c k (Ptr kd r'))))
           | NilVal \<Rightarrow> inherit_loop enc dec ks (snd (lru_Get pc k)) (lru_Add c k v)
           | NonPtr r \<Rightarrow> inherit_loop enc dec ks (snd (lru_Get pc k)) (lru_Add c k v)))"
proof -
  obtain a b where g: "lru_Get pc k = (a, b)" by force
  have a: "lru_Peek pc k = a" using g fst_lru_Get [of pc k] by simp
  show ?thesis by (simp add: g a split: option.splits val.splits)
qed

lemma inherit_loop_wf:
  "wf_lru pc \<Longrightarrow> wf_lru c \<Longrightarrow> inherit_loop enc dec ks pc c = (ok, pc', c') \<Longrightarrow>
     wf_lru pc' \<and> wf_lru c' \<and> lru_size pc' = lru_size pc \<and> lru_size c' = lru_size c \<and>
     set (lru_Keys pc') = set (lru_Keys pc) \<and> set (lru_Keys c') \<subseteq> set (lru_Keys c) \<union> set ks"
proof (induction ks arbitrary: pc c)
  case Nil
  then show ?case by simp
next
  case (Cons k ks)
  let ?pc = "snd (lru_Get pc k)"
  note inherit_loop.simps(2) [simp del]
  have wpc: "wf_lru ?pc" using Cons.prems(1) by (rule wf_lru_Get)
  have step: "\<And>c1. wf_lru c1 \<Longrightarrow> lru_size c1 = lru_size c
      \<Longrightarrow> set (lru_Keys c1) \<subseteq> set (lru_Keys c) \<union> set (k # ks)
      \<Longrightarrow> inherit_loop enc dec ks ?pc c1 = (ok, pc', c') \<Longrightarrow> ?case"
  proof -
    fix c1
    assume a: "wf_lru c1" "lru_size c1 = lru_size c"
      "set (lru_Keys c1) \<subseteq> set (lru_Keys c) \<union> set (k # ks)"
      "inherit_loop enc dec ks ?pc c1 = (ok, pc', c')"
    from Cons.IH [OF wpc a(1) a(4)] a(2) a(3) show ?case by auto
  qed
  have addk: "\<And>v. set (lru_Keys (lru_Add c k v)) \<subseteq> set (lru_Keys c) \<union> set (k # ks)"
    using keys_Add [of c k] by auto
  show ?case
  proof (cases "lru_Peek pc k")
    case None
    with Cons.prems(3) have "inherit_loop enc dec ks ?pc c = (ok, pc', c')" by (simp add: inherit_loop_Cons)
    then show ?thesis using step [of c] Cons.prems(2) by auto
  next
    case (Some v)
    note v = this
    show ?thesis
    proof (cases v)
      case NilVal
      with v Cons.prems(3)
      have "inherit_loop enc dec ks ?pc (lru_Add c k v) = (ok, pc', c')" by (simp add: inherit_loop_Cons)
      then show ?thesis
        using step [of "lru_Add c k v"] wf_lru_Add [OF Cons.prems(2)] addk by simp
    next
      case (NonPtr r)
      with v Cons.prems(3)
      have "inherit_loop enc dec ks ?pc (lru_Add c k v) = (ok, pc', c')" by (simp add: inherit_loop_Cons)
      then show ?thesis
        using step [of "lru_Add c k v"] wf_lru_Add [OF Cons.prems(2)] addk by simp
    next
      case (Ptr kd r)
      note p = this
      show ?thesis
      proof (cases "kd = OtherType")
        case True
        with p v Cons.prems(3) have "inherit_loop enc dec ks ?pc c = (ok, pc', c')" by (simp add: inherit_loop_Cons)
        then show ?thesis using step [of c] Cons.prems(2) by auto
      next
        case False
        note nk = this
        show ?thesis
        proof (cases "dec (encoded_or_nil enc v) kd")
          case None
          with nk p v Cons.prems(3) have "pc' = ?pc" "c' = c" by (simp_all add: inherit_loop_Cons)
          then show ?thesis using wpc Cons.prems(2) by auto
        next
          case (Some r')
          with nk p v Cons.prems(3)
          have "inherit_loop enc dec ks ?pc (lru_Add c k (Ptr kd r')) = (ok, pc', c')" by (simp add: inherit_loop_Cons)
          then show ?thesis
            using step [of "lru_Add c k (Ptr kd r')"] wf_lru_Add [OF Cons.prems(2)] addk by simp
        qed
      qed
    qed
  qed
qed

lemma wf_db_evict_oldest: "wf_db s \<Longrightarrow> wf_db (evict_oldest s)"
  by (auto simp: wf_db_def evict_oldest_def DropDryrunCache_def split: list.splits)

lemma length_recent_evict_oldest:
  "length (recentCaches s) \<le> dryrunCacheLimit
   \<Longrightarrow> length (recentCaches (evict_oldest s)) < dryrunCacheLimit"
  by (auto simp: evict_oldest_def DropDryrunCache_def dryrunCacheLimit_def split: list.splits)

lemma wf_db_register:
  "wf_db s \<Longrightarrow> length (recentCaches s) < dryrunCacheLimit \<Longrightarrow> wf_lru c
   \<Longrightarrow> lru_size c = nat (cacheLimit s) \<Longrightarrow> \<forall>k \<in> set (lru_Keys c). canonical_key k
   \<Longrightarrow> wf_db (register_overlay miner s h c)"
  by (auto simp: wf_db_def register_overlay_def set_overlay_def Let_def)

lemma wf_db_Init: "wf_db s \<Longrightarrow> wf_db (snd (InitDryRunMode miner enc dec s h p))"
proof -
  assume w: "wf_db s"
  let ?s1 = "evict_oldest s"
  let ?s2 = "DropDryrunCache ?s1 h"
  have w2: "wf_db ?s2" using w by (simp add: wf_db_evict_oldest wf_db_Drop)
  have len: "length (recentCaches ?s2) < dryrunCacheLimit"
    using length_recent_evict_oldest [of s] w by (simp add: wf_db_def DropDryrunCache_def)
  have cl: "0 < cacheLimit ?s2" using w2 by (simp add: wf_db_def)
  let ?new = "\<lparr>lru_size = nat (cacheLimit ?s2), lru_items = []\<rparr> :: (string, 'a val) lru"
  have new: "lru_New (cacheLimit ?s2) = Some ?new" using cl by (simp add: lru_New_def)
  have wnew: "wf_lru ?new" using cl by (simp add: wf_lru_def)
  have knew: "lru_Keys ?new = []" by (simp add: lru_Keys_def)
  show ?thesis
  proof (cases "p \<noteq> 0")
    case False
    then show ?thesis
      using new wf_db_register [OF w2 len wnew] knew
      by (simp add: InitDryRunMode_def Let_def)
  next
    case True
    note p = this
    show ?thesis
    proof (cases "dryRunCaches ?s2 p")
      case None
      with p new w2 show ?thesis by (simp add: InitDryRunMode_def Let_def)
    next
      case (Some pc)
      note pc = this
      have wpc: "wf_lru pc" "lru_size pc = nat (cacheLimit ?s2)"
        "\<forall>k \<in> set (lru_Keys pc). canonical_key k"
        using w2 pc by (auto simp: wf_db_def)
      obtain ok pc' c' where il: "inherit_loop enc dec (lru_Keys pc) pc ?new = (ok, pc', c')"
        by (metis prod_cases3)
      from inherit_loop_wf [OF wpc(1) wnew il] knew
      have r: "wf_lru pc'" "wf_lru c'" "lru_size pc' = lru_size pc" "lru_size c' = lru_size ?new"
        "set (lru_Keys pc') = set (lru_Keys pc)" "set (lru_Keys c') \<subseteq> set (lru_Keys pc)"
        by auto
      let ?s3 = "set_overlay ?s2 p pc'"
      have w3: "wf_db ?s3"
        by (rule wf_db_set_overlay) (use w2 r wpc in auto)
      have len3: "length (recentCaches ?s3) < dryrunCacheLimit"
        using len by (simp add: set_overlay_def)
      have wreg: "wf_db (register_overlay miner ?s3 h c')"
        by (rule wf_db_register [OF w3 len3]) (use r wpc in \<open>auto simp: set_overlay_def\<close>)
      show ?thesis
        using p pc new il w2 w3 wreg
        by (simp add: InitDryRunMode_def Let_def)
    qed
  qed
qed

lemma wf_db0: "wf_db db0"
  by (simp add: db0_def wf_db_New)

subsection \<open>Staged writes\<close>

text \<open>
  C7. In staged mode \<open>Put\<close> and \<open>Delete\<close> fail with the error "dryruncache not found"
  when the block hash has no overlay in the registry, and change nothing. When the hash
  is registered, \<open>Put\<close> adds the value to the overlay of the hash and \<open>Delete\<close> adds
  \<open>nil\<close> (the tombstone), whatever the overlay held: afterwards the overlay holds the
  value, or the tombstone, under the cache key. Nothing but that overlay changes; in
  particular the persistent store and the hot cache are as they were.
\<close>

theorem staged_Put_Delete:
  assumes "wf_db s"
  shows "(dryRunCaches s H = None \<longrightarrow>
            Put enc s K V True H = (Some (DryrunCacheNotFound H), s) \<and>
            Delete s K True H = (Some (DryrunCacheNotFound H), s))
       \<and> (\<forall>c. dryRunCaches s H = Some c \<longrightarrow>
            Put enc s K V True H = (None, set_overlay s H (lru_Add c (getCacheKey K) V)) \<and>
            lru_Peek (lru_Add c (getCacheKey K) V) (getCacheKey K) = Some V \<and>
            Delete s K True H = (None, set_overlay s H (lru_Add c (getCacheKey K) NilVal)) \<and>
            lru_Peek (lru_Add c (getCacheKey K) NilVal) (getCacheKey K) = Some NilVal)
       \<and> db (snd (Put enc s K V True H)) = db s
       \<and> db (snd (Delete s K True H)) = db s
       \<and> cacheItems (snd (Put enc s K V True H)) = cacheItems s
       \<and> cacheItems (snd (Delete s K True H)) = cacheItems s"
proof -
  have pos: "\<And>c. dryRunCaches s H = Some c \<Longrightarrow> 0 < lru_size c"
    using assms by (auto simp: wf_db_def wf_lru_def)
  show ?thesis
    using pos
    by (auto simp: Put_def Delete_def Let_def set_overlay_def lru_Peek_Add_same
        split: option.splits)
qed

theorem staged_Put_Delete_witness:
  "wf_db db0
   \<and> Put raw_enc db0 [1] (Ptr Item [5]) True 1 = (Some (DryrunCacheNotFound 1), db0)
   \<and> Delete db0 [1] True 1 = (Some (DryrunCacheNotFound 1), db0)
   \<and> wf_db (snd (InitDryRunMode 9 raw_enc raw_dec db0 1 0))
   \<and> fst (Put raw_enc (snd (InitDryRunMode 9 raw_enc raw_dec db0 1 0)) [1] (Ptr Item [5]) True 1)
       = None
   \<and> db (snd (Put raw_enc (snd (InitDryRunMode 9 raw_enc raw_dec db0 1 0)) [1] (Ptr Item [5])
        True 1)) = db db0"
proof -
  let ?s = "snd (InitDryRunMode 9 raw_enc raw_dec db0 1 0)"
  have n: "dryRunCaches db0 1 = None" by (simp add: db0_def NewBatchDatabase_def)
  have w: "wf_db ?s" using wf_db0 by (rule wf_db_Init)
  have r: "dryRunCaches ?s 1 = Some \<lparr>lru_size = 8, lru_items = []\<rparr>"
    by (simp add: db0_def NewBatchDatabase_def InitDryRunMode_def evict_oldest_def
        DropDryrunCache_def lru_New_def register_overlay_def set_overlay_def Let_def)
  have d: "db ?s = db db0"
    by (simp add: db0_def NewBatchDatabase_def InitDryRunMode_def evict_oldest_def
        DropDryrunCache_def lru_New_def register_overlay_def set_overlay_def Let_def)
  show ?thesis
    using staged_Put_Delete [OF wf_db0, of 1 raw_enc "[1]" "Ptr Item [5]"]
      staged_Put_Delete [OF w, of 1 raw_enc "[1]" "Ptr Item [5]"] n r d w wf_db0
    by (simp add: set_overlay_def)
qed

subsection \<open>The empty key\<close>

text \<open>
  C9. For a key that is \<open>nil\<close>, of length zero or equal to the preallocated empty key,
  \<open>Has\<close> returns \<open>(false, nil)\<close> and \<open>Get\<close> returns \<open>(nil, nil)\<close> in both modes and
  whatever the overlays and the store hold, and the state is left as it was. \<open>Put\<close> and
  \<open>Delete\<close> make no such check: on an empty key they do what they do on any key. In
  staged mode the value or the tombstone is added to the overlay under the cache key of
  the empty key; in direct mode, with a working store, \<open>Put\<close> writes the encoded value
  to the store under the empty key and adds the value to the hot cache, and \<open>Delete\<close>
  removes the key from the store and from the hot cache.
\<close>

theorem empty_key_reads_and_writes:
  assumes "IsEmptyKey s K"
  shows "Has s K m H = ((False, None), s)
       \<and> Get dec s K v m H = ((NilVal, None), s)
       \<and> (\<forall>c. dryRunCaches s H = Some c \<longrightarrow>
            Put enc s K V True H = (None, set_overlay s H (lru_Add c (getCacheKey K) V)) \<and>
            Delete s K True H = (None, set_overlay s H (lru_Add c (getCacheKey K) NilVal)))
       \<and> (\<forall>b. \<not> failing (db s) \<and> enc V = Some b \<longrightarrow>
            fst (Put enc s K V False H) = None \<and>
            kv (db (snd (Put enc s K V False H))) K = Some b \<and>
            cacheItems (snd (Put enc s K V False H)) = lru_Add (cacheItems s) (getCacheKey K) V)
       \<and> (\<not> failing (db s) \<longrightarrow>
            fst (Delete s K False H) = None \<and>
            kv (db (snd (Delete s K False H))) K = None \<and>
            cacheItems (snd (Delete s K False H)) = lru_Remove (cacheItems s) (getCacheKey K))"
  using assms
  by (auto simp: Has_def Get_def Put_def Delete_def Let_def ldb_Put_def ldb_Delete_def
      split: option.splits)

theorem empty_key_reads_and_writes_witness:
  "IsEmptyKey db0 [0, 0, 0, 0] \<and> IsEmptyKey db0 []
   \<and> Has db0 [0, 0, 0, 0] False 1 = ((False, None), db0)
   \<and> Get raw_dec db0 [] Item True 1 = ((NilVal, None), db0)
   \<and> kv (db (snd (Put raw_enc db0 [0, 0, 0, 0] (Ptr Item [5]) False 1))) [0, 0, 0, 0] = Some [5]
   \<and> Get raw_dec (snd (Put raw_enc db0 [0, 0, 0, 0] (Ptr Item [5]) False 1)) [0, 0, 0, 0] Item
        False 1
      = ((NilVal, None), snd (Put raw_enc db0 [0, 0, 0, 0] (Ptr Item [5]) False 1))"
proof -
  let ?K = "[0, 0, 0, 0] :: bytes"
  let ?s = "snd (Put raw_enc db0 ?K (Ptr Item [5]) False 1)"
  have e: "IsEmptyKey db0 ?K" "IsEmptyKey db0 []"
    by (simp_all add: IsEmptyKey_def db0_def NewBatchDatabase_def)
  have e': "IsEmptyKey ?s ?K"
    by (simp add: IsEmptyKey_def db0_def NewBatchDatabase_def Put_def Let_def raw_enc_def
        ldb_Put_def)
  have f: "\<not> failing (db db0)" "raw_enc (Ptr Item [5]) = Some [5]"
    by (simp_all add: db0_def NewBatchDatabase_def raw_enc_def)
  show ?thesis
    using empty_key_reads_and_writes [OF e(1), of False 1 raw_dec Item raw_enc "Ptr Item [5]"]
      empty_key_reads_and_writes [OF e(2), of True 1 raw_dec Item raw_enc "Ptr Item [5]"]
      empty_key_reads_and_writes [OF e', of False 1 raw_dec Item raw_enc "Ptr Item [5]"]
      e f
    by simp
qed

lemma init1: "InitDryRunMode 9 raw_enc raw_dec db0 1 0 =
   (None, db0\<lparr>dryRunCaches := [1 \<mapsto> \<lparr>lru_size = 8, lru_items = []\<rparr>], recentCaches := [1]\<rparr>)"
  by (simp add: db0_def NewBatchDatabase_def InitDryRunMode_def evict_oldest_def
      DropDryrunCache_def register_overlay_def set_overlay_def lru_New_def Let_def)

lemma hex1: "getCacheKey [1] = ''01''"
  by (simp add: getCacheKey_def hextable_def)

lemma st1_eq:
  "st1 = db0\<lparr>dryRunCaches := [1 \<mapsto> \<lparr>lru_size = 8, lru_items = [(''01'', Ptr Item [5])]\<rparr>],
             recentCaches := [1]\<rparr>"
  by (simp add: st1_def init1 Put_def set_overlay_def lru_Add_def lru_Peek_def hex1 Let_def)

lemma wf_st1: "wf_db st1"
  unfolding st1_def by (intro wf_db_Put wf_db_Init wf_db0)

lemma init2: "InitDryRunMode 9 raw_enc raw_dec st1 2 0 =
   (None, db0\<lparr>dryRunCaches := [1 \<mapsto> \<lparr>lru_size = 8, lru_items = [(''01'', Ptr Item [5])]\<rparr>,
                                    2 \<mapsto> \<lparr>lru_size = 8, lru_items = []\<rparr>],
                   recentCaches := [1, 2]\<rparr>)"
  by (simp add: st1_eq db0_def NewBatchDatabase_def InitDryRunMode_def evict_oldest_def
      DropDryrunCache_def register_overlay_def set_overlay_def lru_New_def dryrunCacheLimit_def
      Let_def)

lemma st2_eq:
  "st2 = db0\<lparr>dryRunCaches := [1 \<mapsto> \<lparr>lru_size = 8, lru_items = [(''01'', Ptr Item [5])]\<rparr>,
                               2 \<mapsto> \<lparr>lru_size = 8, lru_items = [(''01'', Ptr Item [])]\<rparr>],
             recentCaches := [1, 2]\<rparr>"
  by (simp add: st2_def init2 Put_def set_overlay_def lru_Add_def lru_Peek_def hex1 Let_def)

lemma wf_st2: "wf_db st2"
  unfolding st2_def by (intro wf_db_Put wf_db_Init wf_st1)

subsection \<open>A failed initialization\<close>

text \<open>
  C10. When \<open>InitDryRunMode\<close> returns an error (the cache could not be created, the
  parent overlay is missing or empty, or an inherited entry did not decode), the overlay
  that was registered under the block hash before the call has been dropped and no new
  one is registered: the registry holds nothing under the hash and \<open>HasDryrunCache\<close> is
  false for it. The error is one of the three the function makes.
\<close>

theorem InitDryRunMode_failure_drops_overlay:
  assumes "InitDryRunMode miner enc dec s H P = (Some e, s')"
  shows "dryRunCaches s' H = None \<and> \<not> HasDryrunCache s' H
       \<and> (e = CantInitialize H \<or> e = ParentCacheNotFound H P \<or> e = CantInherit H P)"
proof -
  let ?s2 = "DropDryrunCache (evict_oldest s) H"
  have none2: "dryRunCaches ?s2 H = None" by (simp add: DropDryrunCache_def)
  have keep: "\<And>pc. P \<noteq> H \<Longrightarrow> dryRunCaches (set_overlay ?s2 P pc) H = None"
    by (simp add: set_overlay_def DropDryrunCache_def)
  have reg: "\<And>pc. dryRunCaches ?s2 P = Some pc \<Longrightarrow> P \<noteq> H"
    using none2 by auto
  have "dryRunCaches s' H = None
       \<and> (e = CantInitialize H \<or> e = ParentCacheNotFound H P \<or> e = CantInherit H P)"
    using assms none2 keep reg
    by (auto simp: InitDryRunMode_def Let_def split: option.splits if_splits prod.splits)
  then show ?thesis by (simp add: HasDryrunCache_def)
qed

theorem InitDryRunMode_failure_drops_overlay_witness:
  "HasDryrunCache st2 1
   \<and> fst (InitDryRunMode 9 raw_enc raw_dec st2 1 3) = Some (ParentCacheNotFound 1 3)
   \<and> \<not> HasDryrunCache (snd (InitDryRunMode 9 raw_enc raw_dec st2 1 3)) 1
   \<and> fst (InitDryRunMode 9 raw_enc raw_dec st2 1 2) = Some (CantInherit 1 2)
   \<and> dryRunCaches (snd (InitDryRunMode 9 raw_enc raw_dec st2 1 2)) 1 = None"
proof -
  have h: "HasDryrunCache st2 1"
    by (simp add: st2_eq HasDryrunCache_def lru_Len_def)
  have a: "fst (InitDryRunMode 9 raw_enc raw_dec st2 1 3) = Some (ParentCacheNotFound 1 3)"
    by (simp add: st2_eq db0_def NewBatchDatabase_def InitDryRunMode_def evict_oldest_def
        DropDryrunCache_def lru_New_def dryrunCacheLimit_def Let_def)
  have b: "fst (InitDryRunMode 9 raw_enc raw_dec st2 1 2) = Some (CantInherit 1 2)"
    by (simp add: st2_eq db0_def NewBatchDatabase_def InitDryRunMode_def evict_oldest_def
        DropDryrunCache_def lru_New_def dryrunCacheLimit_def lru_Len_def lru_Keys_def
        lru_Get_def lru_Peek_def encoded_or_nil_def raw_enc_def raw_dec_def Let_def)
  have a': "InitDryRunMode 9 raw_enc raw_dec st2 1 3
      = (Some (ParentCacheNotFound 1 3), snd (InitDryRunMode 9 raw_enc raw_dec st2 1 3))"
    using a by (metis prod.collapse)
  have b': "InitDryRunMode 9 raw_enc raw_dec st2 1 2
      = (Some (CantInherit 1 2), snd (InitDryRunMode 9 raw_enc raw_dec st2 1 2))"
    using b by (metis prod.collapse)
  show ?thesis
    using InitDryRunMode_failure_drops_overlay [OF a']
      InitDryRunMode_failure_drops_overlay [OF b'] h a b
    by simp
qed

subsection \<open>Staged reads\<close>


lemma st3_eq:
  "st3 = st1\<lparr>db := \<lparr>kv = [[1] \<mapsto> [7]], failing = False\<rparr>,
              cacheItems := \<lparr>lru_size = 8, lru_items = [(''01'', Ptr Item [7])]\<rparr>\<rparr>"
  by (simp add: st3_def st1_eq db0_def NewBatchDatabase_def Put_def lru_Add_def lru_Peek_def
      hex1 raw_enc_def ldb_Put_def Let_def)



lemma st4_eq:
  "st4 = db0\<lparr>db := \<lparr>kv = [[] \<mapsto> [5]], failing = False\<rparr>,
              cacheItems := \<lparr>lru_size = 8, lru_items = [([], Ptr Item [5])]\<rparr>,
              dryRunCaches := [1 \<mapsto> \<lparr>lru_size = 8, lru_items = []\<rparr>],
              recentCaches := [1]\<rparr>"
  by (simp add: st4_def db0_def NewBatchDatabase_def Put_def lru_Add_def lru_Peek_def
      getCacheKey_def raw_enc_def ldb_Put_def InitDryRunMode_def evict_oldest_def
      DropDryrunCache_def register_overlay_def set_overlay_def lru_New_def Let_def)

text \<open>
  C1 (as amended). For every key that is not empty and every registered overlay that
  has no entry for the key, a staged \<open>Get\<close> returns what the persistent store holds,
  decoded as the type asked for: the store's not-found error when the store lacks the
  key, the decoded record when it holds bytes that decode, the decoder's error when they
  do not, and the store's error when the store fails. The result does not depend on the
  hot cache, the value fetched is not added to the hot cache (the hot cache maps the
  same keys to the same values after the call), and the store and the registry are
  unchanged.
\<close>

theorem staged_Get_falls_through:
  assumes k: "\<not> IsEmptyKey s K" and c: "dryRunCaches s H = Some c"
    and n: "lru_Peek c (getCacheKey K) = None"
  shows "(\<not> failing (db s) \<and> kv (db s) K = None \<longrightarrow>
            fst (Get dec s K v True H) = (NilVal, Some ErrNotFound))
       \<and> (\<forall>b r. \<not> failing (db s) \<and> kv (db s) K = Some b \<and> dec b v = Some r \<longrightarrow>
            fst (Get dec s K v True H) = (Ptr v r, None))
       \<and> (\<forall>b. \<not> failing (db s) \<and> kv (db s) K = Some b \<and> dec b v = None \<longrightarrow>
            fst (Get dec s K v True H) = (NilVal, Some DecodeError))
       \<and> (failing (db s) \<longrightarrow> fst (Get dec s K v True H) = (NilVal, Some IoError))
       \<and> fst (Get dec (s\<lparr>cacheItems := ci\<rparr>) K v True H) = fst (Get dec s K v True H)
       \<and> lru_Peek (cacheItems (snd (Get dec s K v True H))) = lru_Peek (cacheItems s)
       \<and> db (snd (Get dec s K v True H)) = db s
       \<and> dryRunCaches (snd (Get dec s K v True H)) = dryRunCaches s"
proof -
  have look: "\<And>t. dryRunCaches t H = Some c \<Longrightarrow> dryrun_lookup t (getCacheKey K) H = (None, t)"
    using n by (simp add: dryrun_lookup_def lru_Get_def)
  have g: "\<And>t. dryRunCaches t H = Some c \<Longrightarrow> \<not> IsEmptyKey t K \<Longrightarrow>
      Get dec t K v True H =
        ((case ldb_Get (db t) K of
            Inl e \<Rightarrow> (NilVal, Some e)
          | Inr b \<Rightarrow> (case dec b v of None \<Rightarrow> (NilVal, Some DecodeError)
                                    | Some r \<Rightarrow> (Ptr v r, None))),
         t\<lparr>cacheItems := snd (lru_Get (cacheItems t) (getCacheKey K))\<rparr>)"
    by (simp add: Get_def look Let_def split: prod.splits sum.splits option.splits)
  have g1: "Get dec s K v True H =
        ((case ldb_Get (db s) K of
            Inl e \<Rightarrow> (NilVal, Some e)
          | Inr b \<Rightarrow> (case dec b v of None \<Rightarrow> (NilVal, Some DecodeError)
                                    | Some r \<Rightarrow> (Ptr v r, None))),
         s\<lparr>cacheItems := snd (lru_Get (cacheItems s) (getCacheKey K))\<rparr>)"
    by (rule g [OF c k])
  have k2: "\<not> IsEmptyKey (s\<lparr>cacheItems := ci\<rparr>) K" using k by (simp add: IsEmptyKey_def)
  have c2: "dryRunCaches (s\<lparr>cacheItems := ci\<rparr>) H = Some c" using c by simp
  have pk: "lru_Peek (snd (lru_Get (cacheItems s) (getCacheKey K))) = lru_Peek (cacheItems s)"
    by (rule ext) simp
  show ?thesis
    unfolding g1 g [OF c2 k2]
    by (simp add: ldb_Get_def pk)
qed

theorem staged_Get_falls_through_witness:
  "\<not> IsEmptyKey st3 [1] \<and> \<not> IsEmptyKey st3 [2]
   \<and> dryRunCaches st3 2 = None
   \<and> fst (Get raw_dec (snd (InitDryRunMode 9 raw_enc raw_dec st3 2 0)) [1] Item True 2)
        = (Ptr Item [7], None)
   \<and> fst (Get raw_dec (snd (InitDryRunMode 9 raw_enc raw_dec st3 2 0)) [2] Item True 2)
        = (NilVal, Some ErrNotFound)"
proof -
  let ?s = "snd (InitDryRunMode 9 raw_enc raw_dec st3 2 0)"
  have s: "?s = st3\<lparr>dryRunCaches := (dryRunCaches st3)(2 \<mapsto> \<lparr>lru_size = 8, lru_items = []\<rparr>),
                    recentCaches := [1, 2]\<rparr>"
    by (simp add: st3_eq st1_eq db0_def NewBatchDatabase_def InitDryRunMode_def evict_oldest_def
        DropDryrunCache_def register_overlay_def set_overlay_def lru_New_def dryrunCacheLimit_def
        Let_def)
  have k: "\<not> IsEmptyKey ?s [1]" "\<not> IsEmptyKey ?s [2]" "\<not> IsEmptyKey st3 [1]"
      "\<not> IsEmptyKey st3 [2]"
    unfolding s by (simp_all add: st3_eq st1_eq db0_def NewBatchDatabase_def IsEmptyKey_def)
  have c: "dryRunCaches ?s 2 = Some \<lparr>lru_size = 8, lru_items = []\<rparr>" by (simp add: s)
  have n: "\<And>x. lru_Peek \<lparr>lru_size = 8, lru_items = []\<rparr> (x :: string) = (None :: bytes val option)"
    by (simp add: lru_Peek_def)
  have st: "\<not> failing (db ?s)" "kv (db ?s) [1] = Some [7]" "kv (db ?s) [2] = None"
      "raw_dec [7] Item = Some [7]" "dryRunCaches st3 2 = None"
    unfolding s by (simp_all add: st3_eq st1_eq raw_dec_def)
  show ?thesis
    using staged_Get_falls_through [OF k(1) c n, of raw_dec Item]
      staged_Get_falls_through [OF k(2) c n, of raw_dec Item] st k
    by simp
qed

text \<open>
  The claim as stated, for every key, fails on an empty key: the store holds a record
  under the key of length zero, overlay 1 is registered and has no entry for the key,
  and the staged \<open>Get\<close> returns \<open>nil\<close> without reading the store.
\<close>

theorem staged_Get_empty_key_counterexample:
  "dryRunCaches st4 1 = Some \<lparr>lru_size = 8, lru_items = []\<rparr>
   \<and> kv (db st4) [] = Some [5]
   \<and> raw_dec [5] Item = Some [5]
   \<and> Get raw_dec st4 [] Item True 1 = ((NilVal, None), st4)"
  by (simp add: st4_eq raw_dec_def Get_def IsEmptyKey_def)

text \<open>
  The staged \<open>Get\<close> does call \<open>Get\<close> on the hot cache before it reads the store, and
  drops the result: a key that the hot cache holds is moved to its front. Here the hot
  cache holds the keys \<open>[2]\<close> (newest) and \<open>[1]\<close>; after a staged \<open>Get\<close> of \<open>[1]\<close> on an
  empty overlay the key \<open>[1]\<close> is the newest.
\<close>

lemma staged_Get_touches_hot_cache:
  "lru_Keys (cacheItems (st4\<lparr>cacheItems :=
       \<lparr>lru_size = 8, lru_items = [(''02'', Ptr Item [6]), (''01'', Ptr Item [7])]\<rparr>\<rparr>))
     = [''01'', ''02'']
   \<and> lru_Keys (cacheItems (snd (Get raw_dec (st4\<lparr>cacheItems :=
       \<lparr>lru_size = 8, lru_items = [(''02'', Ptr Item [6]), (''01'', Ptr Item [7])]\<rparr>\<rparr>)
       [1] Item True 1)))
     = [''02'', ''01'']"
  by (simp add: st4_eq db0_def NewBatchDatabase_def Get_def IsEmptyKey_def dryrun_lookup_def
      lru_Len_def lru_Get_def lru_Peek_def lru_Keys_def move_front_def getCacheKey_def
      hextable_def ldb_Get_def Let_def)

lemma recent_evict_oldest:
  "recentCaches (evict_oldest s) =
     (if length (recentCaches s) \<ge> dryrunCacheLimit then tl (recentCaches s) else recentCaches s)"
  by (auto simp: evict_oldest_def DropDryrunCache_def dryrunCacheLimit_def split: list.splits)

lemma registry_evict_oldest:
  "dryRunCaches (evict_oldest s) x =
     (if length (recentCaches s) \<ge> dryrunCacheLimit \<and> x = hd (recentCaches s) then None
      else dryRunCaches s x)"
  by (auto simp: evict_oldest_def DropDryrunCache_def dryrunCacheLimit_def split: list.splits)

lemma InitDryRunMode_success:
  assumes "InitDryRunMode miner enc dec s h p = (None, s')"
  shows "recentCaches s' = recentCaches (evict_oldest s) @ (if h \<noteq> miner then [h] else [])"
    and "x \<noteq> h \<Longrightarrow> dryRunCaches s' x = None \<longleftrightarrow> dryRunCaches (evict_oldest s) x = None"
    and "dryRunCaches s' h \<noteq> None"
    and "cacheLimit s' = cacheLimit s"
  using assms
  by (auto simp: InitDryRunMode_def Let_def register_overlay_def set_overlay_def
      DropDryrunCache_def evict_oldest_def
      split: option.splits if_splits prod.splits list.splits)

lemma evicted_within_step:
  assumes i: "InitDryRunMode miner enc dec s h p = (None, s')"
    and hx: "h \<noteq> x" and hm: "h \<noteq> miner"
    and e: "evicted_within s x (Suc n)"
  shows "evicted_within s' x n"
proof -
  note r = InitDryRunMode_success(1) [OF i]
  have reg: "dryRunCaches s' x = None \<longleftrightarrow> dryRunCaches (evict_oldest s) x = None"
    using InitDryRunMode_success(2) [OF i] hx by auto
  let ?R = "recentCaches s"
  show ?thesis
  proof (cases "dryRunCaches s x = None")
    case True
    then have "dryRunCaches s' x = None" using reg by (simp add: registry_evict_oldest)
    then show ?thesis by (simp add: evicted_within_def)
  next
    case False
    then obtain i where i: "i < length ?R" "?R ! i = x"
      "dryrunCacheLimit + i + 1 \<le> Suc n + length ?R"
      using e by (auto simp: evicted_within_def)
    show ?thesis
    proof (cases "length ?R \<ge> dryrunCacheLimit")
      case full: True
      show ?thesis
      proof (cases i)
        case 0
        then have "x = hd ?R" using i by (cases ?R) auto
        then have "dryRunCaches s' x = None" using reg full by (simp add: registry_evict_oldest)
        then show ?thesis by (simp add: evicted_within_def)
      next
        case (Suc j)
        have rs: "recentCaches s' = tl ?R @ [h]" using r full hm by (simp add: recent_evict_oldest)
        have j: "j < length (tl ?R)" "tl ?R ! j = x" using i Suc by (auto simp: nth_tl)
        have "(tl ?R @ [h]) ! j = x" using j by (simp add: nth_append)
        moreover have "j < length (tl ?R @ [h])" using j by simp
        moreover have "dryrunCacheLimit + j + 1 \<le> n + length (tl ?R @ [h])"
          using i(3) Suc i(1) by simp
        ultimately show ?thesis unfolding evicted_within_def rs by blast
      qed
    next
      case notfull: False
      have rs: "recentCaches s' = ?R @ [h]" using r notfull hm by (simp add: recent_evict_oldest)
      have "(?R @ [h]) ! i = x" using i by (simp add: nth_append)
      moreover have "i < length (?R @ [h])" using i by simp
      moreover have "dryrunCacheLimit + i + 1 \<le> n + length (?R @ [h])" using i(3) by simp
      ultimately show ?thesis unfolding evicted_within_def rs by blast
    qed
  qed
qed

lemma recent_bound_Init:
  assumes "length (recentCaches s) \<le> dryrunCacheLimit"
  shows "length (recentCaches (snd (InitDryRunMode miner enc dec s h p))) \<le> dryrunCacheLimit"
proof -
  have a: "length (recentCaches (evict_oldest s)) < dryrunCacheLimit"
    using assms by (rule length_recent_evict_oldest)
  show ?thesis
    using a
    by (auto simp: InitDryRunMode_def Let_def register_overlay_def set_overlay_def
        DropDryrunCache_def split: option.splits if_splits prod.splits)
qed

lemma init_all_evicts:
  assumes "init_all miner enc dec s calls = Some s'"
    and "x \<notin> fst ` set calls" and "miner \<notin> fst ` set calls"
    and "evicted_within s x (length calls + n)"
  shows "evicted_within s' x n"
  using assms
proof (induction calls arbitrary: s)
  case Nil
  then show ?case by simp
next
  case (Cons c calls)
  obtain h p where c: "c = (h, p)" by (cases c)
  obtain s1 where s1: "InitDryRunMode miner enc dec s h p = (None, s1)"
    and rest: "init_all miner enc dec s1 calls = Some s'"
    using Cons.prems(1) c by (auto split: prod.splits option.splits)
  have "evicted_within s1 x (length calls + n)"
    by (rule evicted_within_step [OF s1]) (use Cons.prems c in auto)
  then show ?case
    using Cons.IH [OF rest] Cons.prems by auto
qed

lemma init_all_recent_bound:
  "init_all miner enc dec s calls = Some s' \<Longrightarrow> length (recentCaches s) \<le> dryrunCacheLimit
   \<Longrightarrow> length (recentCaches s') \<le> dryrunCacheLimit"
proof (induction calls arbitrary: s)
  case Nil
  then show ?case by simp
next
  case (Cons c calls)
  obtain h p where c: "c = (h, p)" by (cases c)
  obtain s1 where s1: "InitDryRunMode miner enc dec s h p = (None, s1)"
    and rest: "init_all miner enc dec s1 calls = Some s'"
    using Cons.prems(1) c by (auto split: prod.splits option.splits)
  have "length (recentCaches s1) \<le> dryrunCacheLimit"
    using recent_bound_Init [OF Cons.prems(2), of miner enc dec h p] s1 by simp
  then show ?case using Cons.IH [OF rest] by simp
qed

subsection \<open>The gas limit of the next block\<close>

lemma uint_contrib:
  assumes "fits64 (uint (GasUsed p) * 3 div 2)"
  shows "uint (contrib p) = (uint (GasUsed p) * 3 div 2) div 1024"
proof -
  let ?g = "uint (GasUsed p)"
  have e: "?g * 3 div 2 = ?g + ?g div 2" by presburger
  have "?g + uint (GasUsed p div 2) < 2 ^ LENGTH(64)"
    using assms unfolding fits64_def e by (simp add: uint_div)
  then have "uint (GasUsed p + GasUsed p div 2) = ?g + ?g div 2"
    by (simp add: uint_add_lem [THEN iffD1] uint_div)
  then show ?thesis
    unfolding contrib_def GasLimitBoundDivisor_def e by (simp add: uint_div)
qed

lemma uint_decay:
  assumes "fits64 (uint (GasLimit p) div 1024 - 1)"
  shows "uint (decay p) = uint (GasLimit p) div 1024 - 1"
proof -
  have "uint (1 :: uint64) \<le> uint (GasLimit p div 1024)"
    using assms unfolding fits64_def by (simp add: uint_div)
  then have "uint (GasLimit p div 1024 - 1) = uint (GasLimit p div 1024) - uint (1 :: uint64)"
    by (simp add: uint_sub_lem [THEN iffD1])
  then show ?thesis
    unfolding decay_def GasLimitBoundDivisor_def by (simp add: uint_div)
qed

text \<open>
  C8 (as amended). The code computes in \<open>uint64\<close>. Whenever none of the intermediate
  quantities of the recurrence leaves the range of a \<open>uint64\<close> (the contribution
  \<open>gas_used * 3 / 2\<close>, the decay \<open>D = gas_limit / 1024 - 1\<close>, the sum
  \<open>gas_limit - D + C\<close> and the sum \<open>gas_limit + D\<close>), \<open>CalcGasLimit\<close> returns the value
  of the recurrence in exact integer arithmetic: \<open>L = gas_limit - D + C\<close>, raised to
  \<open>MinGasLimit\<close>, and replaced by \<open>min (gas_limit + D) TargetGasLimit\<close> when it is below
  \<open>TargetGasLimit\<close>. For the parent with gas limit 8,000,000 and gas used 6,000,000 the
  decay is 7811, the contribution is 8789 and the limit before any clamping is 8,000,978.
\<close>

theorem CalcGasLimit_refines_spec:
  assumes c: "fits64 (uint (GasUsed p) * 3 div 2)"
    and d: "fits64 (uint (GasLimit p) div 1024 - 1)"
    and l: "fits64 (uint (GasLimit p) - (uint (GasLimit p) div 1024 - 1)
                    + (uint (GasUsed p) * 3 div 2) div 1024)"
    and u: "fits64 (uint (GasLimit p) + (uint (GasLimit p) div 1024 - 1))"
  shows "uint (CalcGasLimit mn tg p)
           = calc_gas_limit_spec (uint mn) (uint tg) (uint (GasLimit p)) (uint (GasUsed p))
         \<and> decay \<lparr>GasLimit = 8000000, GasUsed = 6000000\<rparr> = 7811
         \<and> contrib \<lparr>GasLimit = 8000000, GasUsed = 6000000\<rparr> = 8789
         \<and> GasLimit \<lparr>GasLimit = 8000000, GasUsed = 6000000\<rparr>
             - decay \<lparr>GasLimit = 8000000, GasUsed = 6000000\<rparr>
             + contrib \<lparr>GasLimit = 8000000, GasUsed = 6000000\<rparr> = 8000978"
proof -
  let ?gl = "uint (GasLimit p)"
  let ?D = "?gl div 1024 - 1"
  let ?C = "(uint (GasUsed p) * 3 div 2) div 1024"
  have D: "uint (decay p) = ?D" by (rule uint_decay [OF d])
  have C: "uint (contrib p) = ?C" by (rule uint_contrib [OF c])
  have Dle: "uint (decay p) \<le> ?gl" using d unfolding D fits64_def by linarith
  have s: "uint (GasLimit p - decay p) = ?gl - ?D"
    using Dle by (simp add: uint_sub_lem [THEN iffD1] D)
  have "uint (GasLimit p - decay p) + uint (contrib p) < 2 ^ LENGTH(64)"
    using l unfolding s C fits64_def by simp
  then have L: "uint (GasLimit p - decay p + contrib p) = ?gl - ?D + ?C"
    by (simp add: uint_add_lem [THEN iffD1] s C)
  have "?gl + uint (decay p) < 2 ^ LENGTH(64)"
    using u unfolding D fits64_def by simp
  then have U: "uint (GasLimit p + decay p) = ?gl + ?D"
    by (simp add: uint_add_lem [THEN iffD1] D)
  have general: "uint (CalcGasLimit mn tg p)
      = calc_gas_limit_spec (uint mn) (uint tg) (uint (GasLimit p)) (uint (GasUsed p))"
    unfolding CalcGasLimit_def calc_gas_limit_spec_def Let_def
    by (simp add: word_less_def L U max_def min_def)
  have s6: "decay \<lparr>GasLimit = 8000000, GasUsed = 6000000\<rparr> = 7811"
    "contrib \<lparr>GasLimit = 8000000, GasUsed = 6000000\<rparr> = 8789"
    by (simp_all add: decay_def contrib_def GasLimitBoundDivisor_def)
  show ?thesis
    using general by (simp add: s6)
qed

theorem CalcGasLimit_refines_spec_witness:
  "fits64 (uint (6000000 :: uint64) * 3 div 2)
   \<and> fits64 (uint (8000000 :: uint64) div 1024 - 1)
   \<and> uint (CalcGasLimit 5000 4712388 \<lparr>GasLimit = 8000000, GasUsed = 6000000\<rparr>) = 8000978"
proof -
  let ?p = "\<lparr>GasLimit = 8000000, GasUsed = 6000000\<rparr>"
  have c: "fits64 (uint (GasUsed ?p) * 3 div 2)" by (simp add: fits64_def)
  have d: "fits64 (uint (GasLimit ?p) div 1024 - 1)" by (simp add: fits64_def)
  have l: "fits64 (uint (GasLimit ?p) - (uint (GasLimit ?p) div 1024 - 1)
                    + (uint (GasUsed ?p) * 3 div 2) div 1024)" by (simp add: fits64_def)
  have u: "fits64 (uint (GasLimit ?p) + (uint (GasLimit ?p) div 1024 - 1))"
    by (simp add: fits64_def)
  have "uint (CalcGasLimit 5000 4712388 ?p)
          = calc_gas_limit_spec (uint (5000 :: uint64)) (uint (4712388 :: uint64))
              (uint (GasLimit ?p)) (uint (GasUsed ?p))"
    by (rule CalcGasLimit_refines_spec [OF c d l u, THEN conjunct1])
  then show ?thesis
    by (simp add: calc_gas_limit_spec_def fits64_def)
qed

text \<open>
  The claim as stated, for every parent block, fails where \<open>gas_used + gas_used / 2\<close>
  overflows: with gas used \<open>2^64 - 1\<close> the code's contribution is computed from the
  wrapped sum.
\<close>

theorem CalcGasLimit_overflow_counterexample:
  "uint (CalcGasLimit 5000 4712388 \<lparr>GasLimit = 8000000, GasUsed = 18446744073709551615\<rparr>)
     = 9007199262733180
   \<and> calc_gas_limit_spec 5000 4712388 8000000 18446744073709551615 = 27021597772215164"
  by (simp add: CalcGasLimit_def contrib_def decay_def GasLimitBoundDivisor_def
      calc_gas_limit_spec_def)

end
